theory Spec2Isabelle
  imports Complex_Main "HOL-Library.AList"
begin

section \<open>The real-time channel manager of the AutoFilm web UI\<close>

text \<open>
  This theory embeds the class \<^verbatim>\<open>WebSocketManager\<close> of
  \<^verbatim>\<open>webui/src/utils/api.ts\<close> (the part after the document separator, imported by
  the pages as \<^verbatim>\<open>utils/websocket\<close>). The class is stateful and runs on the browser's
  event loop, so the embedding is a state record holding the fields of the manager and the
  part of the browser it talks to (the listener arrays, the WebSocket objects it created,
  the pending \<^verbatim>\<open>setTimeout\<close> callbacks, the clock), and every method and event handler
  is a function from state to state. Everything the manager does to the outside (console
  output, frames written, timers started, listeners called) is appended to a trace of
  effects, in the order in which the code performs it.
\<close>

subsection \<open>Values received over the wire\<close>

text \<open>
  A value as \<^verbatim>\<open>JSON.parse\<close> returns it, together with \<^verbatim>\<open>undefined\<close>, which reading
  a missing property yields. A number stands for its numeric value; the manager only ever
  tests a number for truthiness. An object is the list of its own properties.
\<close>

datatype jsval =
    JUndefined
  | JNull
  | JBool bool
  | JNum real
  | JStr string
  | JArr "jsval list"
  | JObj "(string \<times> jsval) list"

text \<open>JavaScript's \<^verbatim>\<open>ToBoolean\<close>, which decides \<^verbatim>\<open>a || b\<close>.\<close>

fun truthy :: "jsval \<Rightarrow> bool" where
  "truthy JUndefined = False"
| "truthy JNull = False"
| "truthy (JBool b) = b"
| "truthy (JNum n) = (n \<noteq> 0)"
| "truthy (JStr s) = (s \<noteq> [])"
| "truthy (JArr xs) = True"
| "truthy (JObj kvs) = True"

text \<open>
  Reading the property \<^verbatim>\<open>type\<close> or \<^verbatim>\<open>data\<close> of a value: \<^verbatim>\<open>null\<close> and
  \<^verbatim>\<open>undefined\<close> throw a TypeError (the result \<open>None\<close>); an object gives the property or
  \<^verbatim>\<open>undefined\<close>; booleans, numbers, strings and arrays have no property of these names.
\<close>

fun get_prop :: "jsval \<Rightarrow> string \<Rightarrow> jsval option" where
  "get_prop JUndefined k = None"
| "get_prop JNull k = None"
| "get_prop (JObj kvs) k = Some (case map_of kvs k of Some v \<Rightarrow> v | None \<Rightarrow> JUndefined)"
| "get_prop v k = Some JUndefined"

definition js_or :: "jsval \<Rightarrow> jsval \<Rightarrow> jsval" where
  "js_or a b = (if truthy a then a else b)"

text \<open>
  A listener is handed an object of the decoded message and may change it in place. It
  cannot turn an object into an array or a primitive value, and a primitive value cannot
  be changed at all: \<open>mutated old new\<close> is the content of the object after the call, when
  the listener left \<open>new\<close> in it. \<open>set_data\<close> puts a content back under the property
  \<^verbatim>\<open>data\<close> of the envelope.
\<close>

definition mutated :: "jsval \<Rightarrow> jsval \<Rightarrow> jsval" where
  "mutated old new =
     (case old of
        JObj ps \<Rightarrow> (case new of JObj ps' \<Rightarrow> new | _ \<Rightarrow> old)
      | JArr xs \<Rightarrow> (case new of JArr xs' \<Rightarrow> new | _ \<Rightarrow> old)
      | _ \<Rightarrow> old)"

definition set_data :: "jsval \<Rightarrow> jsval \<Rightarrow> jsval" where
  "set_data message v =
     (case message of JObj ps \<Rightarrow> JObj (AList.update ''data'' v ps) | _ \<Rightarrow> message)"

subsection \<open>The browser as the manager sees it\<close>

type_synonym wsref = nat
type_synonym arrayref = nat
type_synonym callback = nat

datatype readyState = CONNECTING | OPEN | CLOSING | CLOSED

text \<open>The two functions the manager hands to \<^verbatim>\<open>setTimeout\<close>.\<close>

datatype task = Heartbeat wsref | Reconnect

datatype effect =
    Console_log string
  | Console_warn string
  | Console_error string
  | New_WebSocket wsref string
  | Ws_send wsref jsval
  | Ws_close_call wsref
  | Set_timeout task nat
  | Invoke callback jsval

text \<open>
  The fields of the class come first: \<open>socket\<close> is the Socket.IO handle (its
  \<^verbatim>\<open>connected\<close> flag when there is one), \<open>listeners\<close> is the map from a topic to its
  array of callbacks, \<open>ws\<close> is \<^verbatim>\<open>(this as any).ws\<close>. The arrays are objects: the map
  holds a reference, \<open>arrays\<close> holds the content of every array created so far, and
  \<open>next_array\<close> is the reference the next new array gets. This matters because
  \<^verbatim>\<open>handleMessage\<close> walks the array object itself while the listeners it calls may
  change that array, or clear the map. Then the browser: the ready state of every
  WebSocket object created so far (the reference of an object is its position), the
  pending timers with the time at which each is due, the clock in milliseconds, and the
  trace.
\<close>

record state =
  socket :: "bool option"
  reconnectAttempts :: nat
  listeners :: "string \<rightharpoonup> arrayref"
  ws :: "wsref option"
  arrays :: "arrayref \<Rightarrow> callback list"
  next_array :: arrayref
  readyStates :: "readyState list"
  timers :: "(nat \<times> task) list"
  now :: nat
  trace :: "effect list"

text \<open>
  What can happen to a loaded page: a collaborator calls a public method, the browser
  fires an event of one of the sockets, a timer that is due fires, or time passes.
\<close>

datatype event =
    Call_connect
  | Call_disconnect
  | Call_on string callback
  | Call_off string callback
  | Call_send jsval
  | Ws_open wsref
  | Ws_message wsref string
  | Ws_error wsref
  | Ws_close wsref
  | Timeout nat
  | Elapse nat

text \<open>
  What the manager does not define itself: \<^verbatim>\<open>JSON.parse\<close> (\<open>None\<close> when it throws a
  SyntaxError), the page's location, and the bodies of the callbacks passed to
  \<^verbatim>\<open>on\<close>. A callback is a reference. Its body is arbitrary code of a collaborator: while
  it runs it may call the public methods of the manager (\<open>calls\<close>, in order; an event in
  this list that is not a call of a public method is ignored, since a callback cannot
  fire one), it may change the object it was handed (\<open>leaves\<close> is the content it leaves
  there), and it returns or throws (\<open>throws\<close>). What a body does may depend on its
  argument and on everything that happened before, which the state holds.
\<close>

record reaction =
  calls :: "event list"
  leaves :: jsval
  throws :: bool

record host =
  JSON_parse :: "string \<Rightarrow> jsval option"
  body :: "callback \<Rightarrow> jsval \<Rightarrow> state \<Rightarrow> reaction"
  location_protocol :: string
  location_host :: string

definition maxReconnectAttempts :: nat where
  "maxReconnectAttempts = 5"

definition reconnectDelay :: nat where
  "reconnectDelay = 1000"

definition emit :: "effect \<Rightarrow> state \<Rightarrow> state" where
  "emit e s = s\<lparr>trace := trace s @ [e]\<rparr>"

definition setTimeout :: "task \<Rightarrow> nat \<Rightarrow> state \<Rightarrow> state" where
  "setTimeout f delay s =
     (emit (Set_timeout f delay) s)\<lparr>timers := timers s @ [(now s + delay, f)]\<rparr>"

definition readyState_of :: "state \<Rightarrow> wsref \<Rightarrow> readyState" where
  "readyState_of s w = (if w < length (readyStates s) then readyStates s ! w else CLOSED)"

definition new_WebSocket :: "string \<Rightarrow> state \<Rightarrow> wsref \<times> state" where
  "new_WebSocket url s =
     (let w = length (readyStates s)
      in (w, (emit (New_WebSocket w url) s)\<lparr>readyStates := readyStates s @ [CONNECTING]\<rparr>))"

text \<open>\<^verbatim>\<open>WebSocket.send\<close>, called by the manager only on an open socket.\<close>

definition ws_send :: "wsref \<Rightarrow> jsval \<Rightarrow> state \<Rightarrow> state" where
  "ws_send w frame s = emit (Ws_send w frame) s"

text \<open>
  \<^verbatim>\<open>WebSocket.close\<close>: a socket that is connecting or open starts closing; the close
  event follows later. On a closing or closed socket the call does nothing.
\<close>

definition ws_close :: "wsref \<Rightarrow> state \<Rightarrow> state" where
  "ws_close w s =
     (let s1 = emit (Ws_close_call w) s
      in if readyState_of s1 w = CONNECTING \<or> readyState_of s1 w = OPEN
         then s1\<lparr>readyStates := (readyStates s1)[w := CLOSING]\<rparr>
         else s1)"

subsection \<open>The class WebSocketManager\<close>

definition ping :: jsval where
  "ping = JObj [(''type'', JStr ''ping'')]"

definition wsUrl :: "host \<Rightarrow> string" where
  "wsUrl h =
     (if location_protocol h = ''https:'' then ''wss:'' else ''ws:'')
       @ ''//'' @ location_host h @ ''/ws''"

text \<open>The state of \<^verbatim>\<open>new WebSocketManager()\<close> in a browser that has done nothing yet.\<close>

definition fresh :: state where
  "fresh = \<lparr>socket = None, reconnectAttempts = 0, listeners = Map.empty, ws = None,
            arrays = (\<lambda>r. []), next_array = 0,
            readyStates = [], timers = [], now = 0, trace = []\<rparr>"

text \<open>\<^verbatim>\<open>sendHeartbeat(ws)\<close> defines the closure \<^verbatim>\<open>heartbeat\<close> over \<^verbatim>\<open>ws\<close> and calls it.\<close>

definition heartbeat :: "wsref \<Rightarrow> state \<Rightarrow> state" where
  "heartbeat w s =
     (if readyState_of s w = OPEN
      then setTimeout (Heartbeat w) 30000 (ws_send w ping s)
      else s)"

definition sendHeartbeat :: "wsref \<Rightarrow> state \<Rightarrow> state" where
  "sendHeartbeat w s = heartbeat w s"

definition connectWebSocket :: "host \<Rightarrow> state \<Rightarrow> state" where
  "connectWebSocket h s =
     (case new_WebSocket (wsUrl h) s of (w, s1) \<Rightarrow> s1\<lparr>ws := Some w\<rparr>)"

text \<open>\<^verbatim>\<open>this.socket?.connected\<close> is \<^verbatim>\<open>undefined\<close> while \<^verbatim>\<open>this.socket\<close> is null.\<close>

definition connect :: "host \<Rightarrow> state \<Rightarrow> state" where
  "connect h s =
     (if (case socket s of Some is_connected \<Rightarrow> is_connected | None \<Rightarrow> False)
      then s
      else connectWebSocket h (emit (Console_log ''Connecting to WebSocket...'') s))"

text \<open>
  \<^verbatim>\<open>on\<close>: a topic without an entry gets a new empty array; then the callback is
  pushed to the array of the topic. After the \<^verbatim>\<open>set\<close> the \<^verbatim>\<open>get\<close> finds an array, so
  the branch \<open>None\<close> of the second lookup is never taken.
\<close>

definition on :: "string \<Rightarrow> callback \<Rightarrow> state \<Rightarrow> state" where
  "on event cb s =
     (let s1 = (if listeners s event = None
                then s\<lparr>listeners := (listeners s)(event \<mapsto> next_array s),
                       arrays := (arrays s)(next_array s := []),
                       next_array := next_array s + 1\<rparr>
                else s)
      in case listeners s1 event of
           Some r \<Rightarrow> s1\<lparr>arrays := (arrays s1)(r := arrays s1 r @ [cb])\<rparr>
         | None \<Rightarrow> s1)"

text \<open>\<^verbatim>\<open>Array.prototype.indexOf\<close>: the first position of the element, or -1.\<close>

fun indexOf :: "'a list \<Rightarrow> 'a \<Rightarrow> int" where
  "indexOf [] x = -1"
| "indexOf (y # ys) x =
     (if y = x then 0 else (let i = indexOf ys x in if i = -1 then -1 else i + 1))"

text \<open>\<^verbatim>\<open>splice(index, 1)\<close> for an index that is not negative.\<close>

definition splice1 :: "'a list \<Rightarrow> int \<Rightarrow> 'a list" where
  "splice1 xs index = take (nat index) xs @ drop (nat index + 1) xs"

text \<open>\<^verbatim>\<open>off\<close> splices the array of the topic in place.\<close>

definition off :: "string \<Rightarrow> callback \<Rightarrow> state \<Rightarrow> state" where
  "off event cb s =
     (case listeners s event of
        None \<Rightarrow> s
      | Some r \<Rightarrow>
          (let index = indexOf (arrays s r) cb
           in if index > -1
              then s\<lparr>arrays := (arrays s)(r := splice1 (arrays s r) index)\<rparr>
              else s))"

text \<open>\<^verbatim>\<open>send\<close> writes the JSON text of the message; the trace keeps the value.\<close>

definition send :: "jsval \<Rightarrow> state \<Rightarrow> state" where
  "send message s =
     (case ws s of
        Some w \<Rightarrow>
          (if readyState_of s w = OPEN then ws_send w message s
           else emit (Console_warn ''WebSocket is not connected'') s)
      | None \<Rightarrow> emit (Console_warn ''WebSocket is not connected'') s)"

text \<open>
  \<^verbatim>\<open>disconnect\<close>: \<^verbatim>\<open>this.listeners.clear()\<close> empties the map; the arrays it held are
  not touched.
\<close>

definition disconnect :: "state \<Rightarrow> state" where
  "disconnect s =
     (let s1 = (case ws s of Some w \<Rightarrow> ws_close w s | None \<Rightarrow> s)
      in s1\<lparr>listeners := Map.empty\<rparr>)"

definition isConnected :: "state \<Rightarrow> bool" where
  "isConnected s = (case ws s of Some w \<Rightarrow> readyState_of s w = OPEN | None \<Rightarrow> False)"

text \<open>A call of a public method, made by a collaborator or from inside a callback.\<close>

fun perform :: "host \<Rightarrow> event \<Rightarrow> state \<Rightarrow> state" where
  "perform h Call_connect s = connect h s"
| "perform h Call_disconnect s = disconnect s"
| "perform h (Call_on t cb) s = on t cb s"
| "perform h (Call_off t cb) s = off t cb s"
| "perform h (Call_send m) s = send m s"
| "perform h e s = s"

fun perform_all :: "host \<Rightarrow> event list \<Rightarrow> state \<Rightarrow> state" where
  "perform_all h [] s = s"
| "perform_all h (e # es) s = perform_all h es (perform h e s)"

text \<open>
  The loop body of \<^verbatim>\<open>handleMessage\<close>, with its try and catch: the argument
  \<^verbatim>\<open>message.data || message\<close> is computed inside the try from the envelope as it is at
  that moment, then the listener is called, and whatever is thrown is logged. The
  listener runs its body: the calls it makes are performed, and what it did to its
  argument shows in the envelope, of which the argument is a part or the whole. The
  result is the envelope and the state after the call.
\<close>

definition call_listener ::
  "host \<Rightarrow> callback \<Rightarrow> jsval \<Rightarrow> state \<Rightarrow> jsval \<times> state" where
  "call_listener h listener message s =
     (case get_prop message ''data'' of
        None \<Rightarrow> (message, emit (Console_error ''Error in WebSocket listener:'') s)
      | Some d \<Rightarrow>
          (let arg = js_or d message;
               s1 = emit (Invoke listener arg) s;
               re = body h listener arg s1;
               s2 = perform_all h (calls re) s1;
               message' = (if truthy d then set_data message (mutated d (leaves re))
                           else mutated message (leaves re))
           in (message',
               if throws re
               then emit (Console_error ''Error in WebSocket listener:'') s2
               else s2)))"

text \<open>
  \<^verbatim>\<open>Array.prototype.forEach\<close> on the array with reference \<open>r\<close>: the length is read once,
  before the first call; then the positions are visited in order, and a position is
  skipped when the array, as it is at that moment, no longer has it. \<open>forEach_from\<close>
  visits \<open>n\<close> positions starting at \<open>k\<close>.
\<close>

fun forEach_from ::
  "host \<Rightarrow> arrayref \<Rightarrow> nat \<Rightarrow> nat \<Rightarrow> jsval \<Rightarrow> state \<Rightarrow> jsval \<times> state" where
  "forEach_from h r k 0 message s = (message, s)"
| "forEach_from h r k (Suc n) message s =
     (if k < length (arrays s r)
      then (case call_listener h (arrays s r ! k) message s of
              (message', s') \<Rightarrow> forEach_from h r (Suc k) n message' s')
      else forEach_from h r (Suc k) n message s)"

definition forEach :: "host \<Rightarrow> arrayref \<Rightarrow> jsval \<Rightarrow> state \<Rightarrow> state" where
  "forEach h r message s = snd (forEach_from h r 0 (length (arrays s r)) message s)"

text \<open>
  \<^verbatim>\<open>this.listeners.get(message.type)\<close>: the keys of the map are strings, so a type that
  is not a string finds nothing. When nothing is found the loop runs over a new empty
  array, which calls no one.
\<close>

definition listeners_get :: "state \<Rightarrow> jsval \<Rightarrow> arrayref option" where
  "listeners_get s ty = (case ty of JStr t \<Rightarrow> listeners s t | _ \<Rightarrow> None)"

text \<open>
  \<^verbatim>\<open>handleMessage\<close> returns \<open>Inr\<close> the new state, or \<open>Inl\<close> the state in which it threw
  (reading \<^verbatim>\<open>message.type\<close> of \<^verbatim>\<open>null\<close>).
\<close>

definition handleMessage :: "host \<Rightarrow> jsval \<Rightarrow> state \<Rightarrow> state + state" where
  "handleMessage h message s =
     (let s1 = emit (Console_log ''Received WebSocket message:'') s
      in case get_prop message ''type'' of
           None \<Rightarrow> Inl s1
         | Some ty \<Rightarrow>
             Inr (case listeners_get s1 ty of
                    Some r \<Rightarrow> forEach h r message s1
                  | None \<Rightarrow> s1))"

definition handleReconnect :: "state \<Rightarrow> state" where
  "handleReconnect s =
     (if reconnectAttempts s < maxReconnectAttempts
      then (let s1 = s\<lparr>reconnectAttempts := reconnectAttempts s + 1\<rparr>;
                s2 = emit (Console_log ''Attempting to reconnect...'') s1
            in setTimeout Reconnect (reconnectDelay * reconnectAttempts s2) s2)
      else emit (Console_error ''Max reconnection attempts reached'') s)"

text \<open>The four handlers \<^verbatim>\<open>connectWebSocket\<close> installs on the socket it creates.\<close>

definition ws_onopen :: "wsref \<Rightarrow> state \<Rightarrow> state" where
  "ws_onopen w s =
     sendHeartbeat w ((emit (Console_log ''WebSocket connected'') s)\<lparr>reconnectAttempts := 0\<rparr>)"

definition ws_onmessage :: "host \<Rightarrow> string \<Rightarrow> state \<Rightarrow> state" where
  "ws_onmessage h raw s =
     (case JSON_parse h raw of
        None \<Rightarrow> emit (Console_error ''Failed to parse WebSocket message:'') s
      | Some message \<Rightarrow>
          (case handleMessage h message s of
             Inr s1 \<Rightarrow> s1
           | Inl s1 \<Rightarrow> emit (Console_error ''Failed to parse WebSocket message:'') s1))"

definition ws_onclose :: "state \<Rightarrow> state" where
  "ws_onclose s = handleReconnect (emit (Console_log ''WebSocket disconnected'') s)"

definition ws_onerror :: "state \<Rightarrow> state" where
  "ws_onerror s = emit (Console_error ''WebSocket error:'') s"

text \<open>Loading the module creates the manager and calls \<^verbatim>\<open>connect\<close> at once.\<close>

definition loaded :: "host \<Rightarrow> state" where
  "loaded h = connect h fresh"

subsection \<open>The event loop\<close>

text \<open>
  A socket opens once, from CONNECTING; it delivers messages only while OPEN; its close
  event fires once and leaves it CLOSED. An event that cannot happen in a state leaves
  the state as it is.
\<close>

definition run_task :: "host \<Rightarrow> task \<Rightarrow> state \<Rightarrow> state" where
  "run_task h f s = (case f of Heartbeat w \<Rightarrow> heartbeat w s | Reconnect \<Rightarrow> connect h s)"

definition remove_nth :: "nat \<Rightarrow> 'a list \<Rightarrow> 'a list" where
  "remove_nth i xs = take i xs @ drop (Suc i) xs"

fun step :: "host \<Rightarrow> event \<Rightarrow> state \<Rightarrow> state" where
  "step h Call_connect s = connect h s"
| "step h Call_disconnect s = disconnect s"
| "step h (Call_on t cb) s = on t cb s"
| "step h (Call_off t cb) s = off t cb s"
| "step h (Call_send m) s = send m s"
| "step h (Ws_open w) s =
     (if readyState_of s w = CONNECTING
      then ws_onopen w (s\<lparr>readyStates := (readyStates s)[w := OPEN]\<rparr>)
      else s)"
| "step h (Ws_message w raw) s =
     (if readyState_of s w = OPEN then ws_onmessage h raw s else s)"
| "step h (Ws_error w) s =
     (if readyState_of s w \<noteq> CLOSED then ws_onerror s else s)"
| "step h (Ws_close w) s =
     (if readyState_of s w \<noteq> CLOSED
      then ws_onclose (s\<lparr>readyStates := (readyStates s)[w := CLOSED]\<rparr>)
      else s)"
| "step h (Timeout i) s =
     (if i < length (timers s) \<and> fst (timers s ! i) \<le> now s
      then run_task h (snd (timers s ! i)) (s\<lparr>timers := remove_nth i (timers s)\<rparr>)
      else s)"
| "step h (Elapse d) s = s\<lparr>now := now s + d\<rparr>"

fun run :: "host \<Rightarrow> event list \<Rightarrow> state \<Rightarrow> state" where
  "run h [] s = s"
| "run h (e # es) s = run h es (step h e s)"

subsection \<open>Observing a run\<close>

text \<open>
  The effects performed between a state and a later one, and four readings of a list of
  effects: the listener calls with their arguments, the delays of the reconnections that
  were scheduled, the frames written to one socket, and the lines written to the error
  console.
\<close>

definition new_effects :: "state \<Rightarrow> state \<Rightarrow> effect list" where
  "new_effects s s' = drop (length (trace s)) (trace s')"

fun invocations :: "effect list \<Rightarrow> (callback \<times> jsval) list" where
  "invocations [] = []"
| "invocations (Invoke cb arg # es) = (cb, arg) # invocations es"
| "invocations (e # es) = invocations es"

fun retry_delays :: "effect list \<Rightarrow> nat list" where
  "retry_delays [] = []"
| "retry_delays (Set_timeout Reconnect d # es) = d # retry_delays es"
| "retry_delays (e # es) = retry_delays es"

fun frames_sent :: "wsref \<Rightarrow> effect list \<Rightarrow> jsval list" where
  "frames_sent w [] = []"
| "frames_sent w (Ws_send w' frame # es) =
     (if w' = w then frame # frames_sent w es else frames_sent w es)"
| "frames_sent w (e # es) = frames_sent w es"

fun errors :: "effect list \<Rightarrow> string list" where
  "errors [] = []"
| "errors (Console_error text # es) = text # errors es"
| "errors (e # es) = errors es"

text \<open>
  The callbacks registered for a topic, in the order the array holds them.
\<close>

definition registered :: "state \<Rightarrow> string \<Rightarrow> callback list" where
  "registered s t = (case listeners s t of Some r \<Rightarrow> arrays s r | None \<Rightarrow> [])"

text \<open>
  Event lists in which no socket opens, in which no socket opens or closes, and in which
  no message is delivered; the number of close events that really happen in a run (a
  socket that is already closed does not close again); the five delays of the
  reconnection policy; a socket on which \<^verbatim>\<open>close\<close> was called or whose close event has
  fired.
\<close>

fun is_Ws_open :: "event \<Rightarrow> bool" where
  "is_Ws_open (Ws_open w) = True"
| "is_Ws_open e = False"

fun is_Ws_close :: "event \<Rightarrow> bool" where
  "is_Ws_close (Ws_close w) = True"
| "is_Ws_close e = False"

fun no_open :: "event list \<Rightarrow> bool" where
  "no_open [] = True"
| "no_open (e # es) = (\<not> is_Ws_open e \<and> no_open es)"

fun quiet :: "event list \<Rightarrow> bool" where
  "quiet [] = True"
| "quiet (e # es) = (\<not> is_Ws_open e \<and> \<not> is_Ws_close e \<and> quiet es)"


fun close_events :: "host \<Rightarrow> event list \<Rightarrow> state \<Rightarrow> nat" where
  "close_events h [] s = 0"
| "close_events h (Ws_close w # es) s =
     (if readyState_of s w \<noteq> CLOSED then 1 else 0) + close_events h es (step h (Ws_close w) s)"
| "close_events h (e # es) s = close_events h es (step h e s)"

definition backoff :: "nat list" where
  "backoff = [1000, 2000, 3000, 4000, 5000]"

definition shut :: "state \<Rightarrow> wsref \<Rightarrow> bool" where
  "shut s w = (w < length (readyStates s) \<and>
               (readyStates s ! w = CLOSING \<or> readyStates s ! w = CLOSED))"

text \<open>
  What a callback may be assumed to do. A callback is harmless when, whatever it is
  handed and whenever it is called, it calls neither \<^verbatim>\<open>on\<close> nor \<^verbatim>\<open>off\<close> and leaves
  the object it was handed as it is; it may call the other public methods, and it may
  throw. A host keeps the message when none of its callbacks ever changes the object it
  is handed. A callback that always throws does so on every call.
\<close>

fun is_registration :: "event \<Rightarrow> bool" where
  "is_registration (Call_on t cb) = True"
| "is_registration (Call_off t cb) = True"
| "is_registration e = False"

definition harmless :: "host \<Rightarrow> callback \<Rightarrow> bool" where
  "harmless h cb =
     (\<forall>arg st. list_all (\<lambda>e. \<not> is_registration e) (calls (body h cb arg st)) \<and>
               mutated arg (leaves (body h cb arg st)) = arg)"

definition keeps_message :: "host \<Rightarrow> bool" where
  "keeps_message h = (\<forall>cb arg st. mutated arg (leaves (body h cb arg st)) = arg)"

definition always_throws :: "host \<Rightarrow> callback \<Rightarrow> bool" where
  "always_throws h cb = (\<forall>arg st. throws (body h cb arg st))"

text \<open>
  Relations between a state and a later one, used in the proofs: the trace has only
  grown; the counter, the timers and the clock are the same, no reconnection was
  scheduled and nothing was sent on a socket that was shut; no listener was called and
  nothing was written to the error console. The registry is sound when every array the
  map refers to has been created and no two topics share an array.
\<close>

definition ext :: "state \<Rightarrow> state \<Rightarrow> bool" where
  "ext s s' = (\<exists>es. trace s' = trace s @ es)"

definition steady :: "state \<Rightarrow> state \<Rightarrow> bool" where
  "steady s s' =
     (ext s s' \<and> reconnectAttempts s' = reconnectAttempts s \<and> timers s' = timers s \<and>
      now s' = now s \<and> socket s' = socket s \<and>
      retry_delays (new_effects s s') = [] \<and>
      (\<forall>w. shut s w \<longrightarrow> shut s' w \<and> frames_sent w (new_effects s s') = []))"

definition silent :: "state \<Rightarrow> state \<Rightarrow> bool" where
  "silent s s' =
     (ext s s' \<and> invocations (new_effects s s') = [] \<and> errors (new_effects s s') = [])"



text \<open>
  Two hosts for evaluating the model on concrete inputs. Their \<^verbatim>\<open>JSON.parse\<close> knows
  two frames and rejects every other text. In the first host the callbacks 2 and 4
  unregister themselves from topic x when they are called, the callbacks 0 and 4 throw,
  and no callback changes its argument. In the second host every callback replaces the
  content of the object it is handed by a data field.
\<close>

definition sample_host :: host where
  "sample_host =
     \<lparr>JSON_parse = (\<lambda>raw.
        if raw = ''{\"type\":\"task_status_update\",\"data\":{\"id\":\"t1\",\"status\":\"running\"}}''
        then Some (JObj [(''type'', JStr ''task_status_update''),
                         (''data'', JObj [(''id'', JStr ''t1''), (''status'', JStr ''running'')])])
        else if raw = ''{\"type\":\"x\",\"data\":0}''
        then Some (JObj [(''type'', JStr ''x''), (''data'', JNum 0)])
        else None),
      body = (\<lambda>cb arg st.
        \<lparr>calls = (if cb = 2 \<or> cb = 4 then [Call_off ''x'' cb] else []),
         leaves = arg,
         throws = (cb = 0 \<or> cb = 4)\<rparr>),
      location_protocol = ''https:'',
      location_host = ''localhost:8000''\<rparr>"

definition editing_host :: host where
  "editing_host =
     sample_host\<lparr>body := (\<lambda>cb arg st.
       \<lparr>calls = [], leaves = JObj [(''data'', JStr ''changed'')], throws = False\<rparr>)\<rparr>"

section \<open>Properties\<close>

subsection \<open>What the methods and handlers do to the state\<close>

lemma new_effects_append [simp]: "trace s' = trace s @ es \<Longrightarrow> new_effects s s' = es"
  by (simp add: new_effects_def)

lemma new_effects_same [simp]: "new_effects s s = []"
  by (simp add: new_effects_def)

lemma invocations_append [simp]: "invocations (xs @ ys) = invocations xs @ invocations ys"
  by (induction xs rule: invocations.induct) simp_all

lemma retry_delays_append [simp]: "retry_delays (xs @ ys) = retry_delays xs @ retry_delays ys"
  by (induction xs rule: retry_delays.induct) simp_all

lemma frames_sent_append [simp]:
  "frames_sent w (xs @ ys) = frames_sent w xs @ frames_sent w ys"
  by (induction w xs rule: frames_sent.induct) simp_all

lemma errors_append [simp]: "errors (xs @ ys) = errors xs @ errors ys"
  by (induction xs rule: errors.induct) simp_all

lemma setTimeout_eq:
  "setTimeout f d s =
     s\<lparr>timers := timers s @ [(now s + d, f)], trace := trace s @ [Set_timeout f d]\<rparr>"
  by (simp add: setTimeout_def emit_def)

lemma readyState_of_trace [simp]:
  "readyState_of (s\<lparr>trace := tr\<rparr>) w = readyState_of s w"
  by (simp add: readyState_of_def)

lemma readyState_of_timers [simp]:
  "readyState_of (s\<lparr>timers := ts\<rparr>) w = readyState_of s w"
  by (simp add: readyState_of_def)

lemma readyState_of_attempts [simp]:
  "readyState_of (s\<lparr>reconnectAttempts := n\<rparr>) w = readyState_of s w"
  by (simp add: readyState_of_def)

lemma readyState_of_listeners [simp]:
  "readyState_of (s\<lparr>listeners := m\<rparr>) w = readyState_of s w"
  by (simp add: readyState_of_def)

lemma readyState_of_now [simp]:
  "readyState_of (s\<lparr>now := n\<rparr>) w = readyState_of s w"
  by (simp add: readyState_of_def)

lemma readyState_of_arrays [simp]:
  "readyState_of (s\<lparr>arrays := a\<rparr>) w = readyState_of s w"
  "readyState_of (s\<lparr>next_array := n\<rparr>) w = readyState_of s w"
  by (simp_all add: readyState_of_def)

lemma heartbeat_eq:
  "heartbeat w s =
     (if readyState_of s w = OPEN
      then s\<lparr>timers := timers s @ [(now s + 30000, Heartbeat w)],
             trace := trace s @ [Ws_send w ping, Set_timeout (Heartbeat w) 30000]\<rparr>
      else s)"
  by (simp add: heartbeat_def setTimeout_eq ws_send_def emit_def)

lemma connect_eq:
  "connect h s =
     (if socket s = Some True then s
      else s\<lparr>ws := Some (length (readyStates s)),
             readyStates := readyStates s @ [CONNECTING],
             trace := trace s @ [Console_log ''Connecting to WebSocket...'',
                                 New_WebSocket (length (readyStates s)) (wsUrl h)]\<rparr>)"
  by (simp add: connect_def connectWebSocket_def new_WebSocket_def emit_def Let_def
      split: option.splits)

lemma handleReconnect_eq:
  "handleReconnect s =
     (if reconnectAttempts s < 5
      then s\<lparr>reconnectAttempts := reconnectAttempts s + 1,
             timers := timers s @ [(now s + 1000 * (reconnectAttempts s + 1), Reconnect)],
             trace := trace s @ [Console_log ''Attempting to reconnect...'',
                                 Set_timeout Reconnect (1000 * (reconnectAttempts s + 1))]\<rparr>
      else s\<lparr>trace := trace s @ [Console_error ''Max reconnection attempts reached'']\<rparr>)"
  by (simp add: handleReconnect_def maxReconnectAttempts_def reconnectDelay_def
      setTimeout_eq emit_def Let_def)

lemma ws_onclose_eq:
  "ws_onclose s =
     (if reconnectAttempts s < 5
      then s\<lparr>reconnectAttempts := reconnectAttempts s + 1,
             timers := timers s @ [(now s + 1000 * (reconnectAttempts s + 1), Reconnect)],
             trace := trace s @ [Console_log ''WebSocket disconnected'',
                                 Console_log ''Attempting to reconnect...'',
                                 Set_timeout Reconnect (1000 * (reconnectAttempts s + 1))]\<rparr>
      else s\<lparr>trace := trace s @ [Console_log ''WebSocket disconnected'',
                                 Console_error ''Max reconnection attempts reached'']\<rparr>)"
  by (simp add: ws_onclose_def handleReconnect_eq emit_def)

lemma ws_onopen_eq:
  "ws_onopen w s =
     (if readyState_of s w = OPEN
      then s\<lparr>reconnectAttempts := 0,
             timers := timers s @ [(now s + 30000, Heartbeat w)],
             trace := trace s @ [Console_log ''WebSocket connected'', Ws_send w ping,
                                 Set_timeout (Heartbeat w) 30000]\<rparr>
      else s\<lparr>reconnectAttempts := 0,
             trace := trace s @ [Console_log ''WebSocket connected'']\<rparr>)"
  by (simp add: ws_onopen_def sendHeartbeat_def heartbeat_eq emit_def)

lemma disconnect_eq:
  "disconnect s =
     (case ws s of
        None \<Rightarrow> s\<lparr>listeners := Map.empty\<rparr>
      | Some w \<Rightarrow>
          s\<lparr>listeners := Map.empty,
            readyStates := (if readyState_of s w = CONNECTING \<or> readyState_of s w = OPEN
                            then (readyStates s)[w := CLOSING] else readyStates s),
            trace := trace s @ [Ws_close_call w]\<rparr>)"
  by (simp add: disconnect_def ws_close_def emit_def Let_def split: option.splits)

lemma send_eq:
  "send m s =
     s\<lparr>trace := trace s @
        [case ws s of
           Some w \<Rightarrow> if readyState_of s w = OPEN then Ws_send w m
                     else Console_warn ''WebSocket is not connected''
         | None \<Rightarrow> Console_warn ''WebSocket is not connected'']\<rparr>"
  by (simp add: send_def ws_send_def emit_def split: option.splits)

lemma on_eq:
  "on t c s =
     (case listeners s t of
        None \<Rightarrow> s\<lparr>listeners := (listeners s)(t \<mapsto> next_array s),
                  arrays := (arrays s)(next_array s := [c]),
                  next_array := next_array s + 1\<rparr>
      | Some r \<Rightarrow> s\<lparr>arrays := (arrays s)(r := arrays s r @ [c])\<rparr>)"
  by (simp add: on_def Let_def split: option.splits)

lemma off_eq:
  "off t c s =
     s\<lparr>arrays :=
         (case listeners s t of
            None \<Rightarrow> arrays s
          | Some r \<Rightarrow>
              if indexOf (arrays s r) c > -1
              then (arrays s)(r := splice1 (arrays s r) (indexOf (arrays s r) c))
              else arrays s)\<rparr>"
  by (simp add: off_def Let_def split: option.splits)

lemma shut_fields [simp]:
  "shut (s\<lparr>timers := a\<rparr>) w = shut s w"
  "shut (s\<lparr>trace := b\<rparr>) w = shut s w"
  "shut (s\<lparr>arrays := c\<rparr>) w = shut s w"
  "shut (s\<lparr>next_array := d\<rparr>) w = shut s w"
  "shut (s\<lparr>listeners := e\<rparr>) w = shut s w"
  "shut (s\<lparr>reconnectAttempts := f\<rparr>) w = shut s w"
  "shut (s\<lparr>now := g\<rparr>) w = shut s w"
  "shut (s\<lparr>ws := i\<rparr>) w = shut s w"
  by (simp_all add: shut_def)

lemma ext_refl [simp]: "ext s s"
  by (simp add: ext_def)

lemma ext_new: "ext s s' \<Longrightarrow> trace s' = trace s @ new_effects s s'"
  by (auto simp: ext_def new_effects_def)

lemma ext_trans:
  assumes "ext s s1" and "ext s1 s2"
  shows "ext s s2" and "new_effects s s2 = new_effects s s1 @ new_effects s1 s2"
proof -
  obtain es1 where 1: "trace s1 = trace s @ es1" using assms(1) by (auto simp: ext_def)
  obtain es2 where 2: "trace s2 = trace s1 @ es2" using assms(2) by (auto simp: ext_def)
  have 3: "trace s2 = trace s @ (es1 @ es2)" unfolding 2 1 by simp
  show "ext s s2" unfolding ext_def using 3 by blast
  have "new_effects s s1 = es1" using 1 by (rule new_effects_append)
  moreover have "new_effects s1 s2 = es2" using 2 by (rule new_effects_append)
  moreover have "new_effects s s2 = es1 @ es2" using 3 by (rule new_effects_append)
  ultimately show "new_effects s s2 = new_effects s s1 @ new_effects s1 s2" by simp
qed

lemma ext_emit [simp]: "ext s (emit e s)" "new_effects s (emit e s) = [e]"
  by (simp_all add: ext_def emit_def)

lemma steady_refl [simp]: "steady s s"
  by (simp add: steady_def)

lemma steady_trans:
  assumes "steady s s1" and "steady s1 s2"
  shows "steady s s2"
proof -
  have e1: "ext s s1" and e2: "ext s1 s2" using assms by (simp_all add: steady_def)
  note e = ext_trans [OF e1 e2]
  show ?thesis
    using assms e by (simp add: steady_def)
qed

lemma steady_emit:
  "retry_delays [e] = [] \<Longrightarrow> (\<And>w. frames_sent w [e] = []) \<Longrightarrow> steady s (emit e s)"
  by (simp add: steady_def) (simp add: emit_def)

lemma perform_steady: "steady s (perform h e s)"
proof (cases e)
  case Call_connect
  then show ?thesis
    by (auto simp: steady_def ext_def connect_eq shut_def nth_append)
next
  case Call_disconnect
  then show ?thesis
    by (auto simp: steady_def ext_def disconnect_eq shut_def readyState_of_def nth_list_update
        split: option.splits)
next
  case (Call_on t cb)
  then show ?thesis by (auto simp: steady_def ext_def on_eq split: option.splits)
next
  case (Call_off t cb)
  then show ?thesis by (auto simp: steady_def ext_def off_eq)
next
  case (Call_send m)
  then show ?thesis
    by (auto simp: steady_def ext_def send_eq shut_def readyState_of_def split: option.splits)
qed simp_all

lemma perform_all_steady: "steady s (perform_all h es s)"
proof (induction es arbitrary: s)
  case Nil
  then show ?case by simp
next
  case (Cons e es)
  show ?case
    using steady_trans [OF perform_steady [of s h e] Cons.IH [of "perform h e s"]] by simp
qed

lemma call_listener_steady: "steady s (snd (call_listener h cb m s))"
proof (cases "get_prop m ''data''")
  case None
  then show ?thesis by (simp add: call_listener_def steady_emit)
next
  case (Some d)
  define s1 where "s1 = emit (Invoke cb (js_or d m)) s"
  define s2 where "s2 = perform_all h (calls (body h cb (js_or d m) s1)) s1"
  have a: "steady s s1" unfolding s1_def by (simp add: steady_emit)
  have b: "steady s1 s2" unfolding s2_def by (rule perform_all_steady)
  have c: "steady s2 (emit (Console_error ''Error in WebSocket listener:'') s2)"
    by (simp add: steady_emit)
  have "snd (call_listener h cb m s) = s2 \<or>
        snd (call_listener h cb m s) = emit (Console_error ''Error in WebSocket listener:'') s2"
    using Some by (simp add: call_listener_def Let_def s1_def s2_def)
  then show ?thesis
    using steady_trans [OF a b] steady_trans [OF steady_trans [OF a b] c] by auto
qed

lemma forEach_from_steady: "steady s (snd (forEach_from h r k n m s))"
proof (induction n arbitrary: k m s)
  case 0
  then show ?case by simp
next
  case (Suc n)
  show ?case
  proof (cases "k < length (arrays s r)")
    case True
    obtain m' s' where c: "call_listener h (arrays s r ! k) m s = (m', s')"
      by (cases "call_listener h (arrays s r ! k) m s")
    have "steady s s'" using call_listener_steady [of s h "arrays s r ! k" m] c by simp
    from steady_trans [OF this Suc.IH [of s' "Suc k" m']] show ?thesis
      using True c by simp
  next
    case False
    then show ?thesis using Suc.IH [of s "Suc k" m] by simp
  qed
qed

lemma listeners_get_emit [simp]: "listeners_get (emit e s) ty = listeners_get s ty"
  by (simp add: listeners_get_def emit_def split: jsval.splits)

lemma arrays_emit [simp]: "arrays (emit e s) = arrays s"
  by (simp add: emit_def)

lemma handleMessage_Inr:
  "get_prop m ''type'' = Some ty \<Longrightarrow>
   handleMessage h m s =
     Inr (case listeners_get s ty of
            Some r \<Rightarrow> forEach h r m (emit (Console_log ''Received WebSocket message:'') s)
          | None \<Rightarrow> emit (Console_log ''Received WebSocket message:'') s)"
  by (simp add: handleMessage_def Let_def)

lemma ws_onmessage_dispatch:
  "JSON_parse h raw = Some m \<Longrightarrow> get_prop m ''type'' = Some ty \<Longrightarrow>
   ws_onmessage h raw s =
     (case listeners_get s ty of
        Some r \<Rightarrow> forEach h r m (emit (Console_log ''Received WebSocket message:'') s)
      | None \<Rightarrow> emit (Console_log ''Received WebSocket message:'') s)"
  by (simp add: ws_onmessage_def handleMessage_Inr)

lemma ws_onmessage_steady: "steady s (ws_onmessage h raw s)"
proof -
  have log: "steady s (emit (Console_log ''Received WebSocket message:'') s)"
    by (simp add: steady_emit)
  have err: "steady x (emit (Console_error ''Failed to parse WebSocket message:'') x)" for x
    by (simp add: steady_emit)
  show ?thesis
  proof (cases "JSON_parse h raw")
    case None
    then show ?thesis using err by (simp add: ws_onmessage_def)
  next
    case (Some m)
    show ?thesis
    proof (cases "get_prop m ''type''")
      case None
      then show ?thesis
        using Some steady_trans [OF log err]
        by (simp add: ws_onmessage_def handleMessage_def)
    next
      case ty: (Some ty)
      show ?thesis
      proof (cases "listeners_get s ty")
        case None
        then show ?thesis
          using Some ty log by (simp add: ws_onmessage_dispatch)
      next
        case r: (Some r)
        show ?thesis
          using Some ty r steady_trans [OF log forEach_from_steady]
          by (simp add: ws_onmessage_dispatch forEach_def)
      qed
    qed
  qed
qed

subsection \<open>The reconnection counter, the trace and closed sockets along a run\<close>

lemma steady_retry: "steady s s' \<Longrightarrow> retry_delays (trace s') = retry_delays (trace s)"
proof -
  assume st: "steady s s'"
  then have "trace s' = trace s @ new_effects s s'" by (simp add: steady_def ext_new)
  then have "retry_delays (trace s') = retry_delays (trace s) @ retry_delays (new_effects s s')"
    using retry_delays_append by metis
  then show ?thesis using st by (simp add: steady_def)
qed

lemma steady_shut:
  assumes "steady s s'" and "shut s w"
  shows "shut s' w \<and> frames_sent w (trace s') = frames_sent w (trace s)"
proof -
  have "trace s' = trace s @ new_effects s s'" using assms(1) by (simp add: steady_def ext_new)
  then have "frames_sent w (trace s') =
      frames_sent w (trace s) @ frames_sent w (new_effects s s')"
    using frames_sent_append by metis
  then show ?thesis using assms by (simp add: steady_def)
qed

lemma message_attempts:
  "reconnectAttempts (ws_onmessage h raw s) = reconnectAttempts s"
  using ws_onmessage_steady [of s h raw] by (simp add: steady_def)

lemma message_retry:
  "retry_delays (trace (ws_onmessage h raw s)) = retry_delays (trace s)"
  using ws_onmessage_steady [of s h raw] by (rule steady_retry)

lemma run_task_attempts:
  "reconnectAttempts (run_task h f s) = reconnectAttempts s"
  by (cases f) (simp_all add: run_task_def heartbeat_eq connect_eq)

lemma run_task_retry:
  "retry_delays (trace (run_task h f s)) = retry_delays (trace s)"
  by (cases f) (simp_all add: run_task_def heartbeat_eq connect_eq)

lemma step_attempts:
  "\<not> is_Ws_open e \<Longrightarrow> \<not> is_Ws_close e \<Longrightarrow>
   reconnectAttempts (step h e s) = reconnectAttempts s"
  by (cases e)
     (auto simp: connect_eq disconnect_eq on_eq off_eq send_eq message_attempts ws_onerror_def
        emit_def run_task_attempts split: option.splits)

lemma step_retry:
  "\<not> is_Ws_close e \<Longrightarrow> retry_delays (trace (step h e s)) = retry_delays (trace s)"
  by (cases e)
     (auto simp: connect_eq disconnect_eq on_eq off_eq send_eq message_retry ws_onerror_def
        ws_onopen_eq emit_def run_task_retry split: option.splits)

lemma run_attempts:
  "quiet evs \<Longrightarrow> reconnectAttempts (run h evs s) = reconnectAttempts s"
proof (induction evs arbitrary: s)
  case Nil
  then show ?case by simp
next
  case (Cons e evs)
  then have "reconnectAttempts (step h e s) = reconnectAttempts s"
    by (simp add: step_attempts)
  with Cons show ?case by simp
qed

lemma backoff_drop: "n < 5 \<Longrightarrow> drop n backoff = 1000 * (n + 1) # drop (Suc n) backoff"
proof -
  assume "n < 5"
  then consider "n = 0" | "n = 1" | "n = 2" | "n = 3" | "n = 4" by linarith
  then show ?thesis by cases (simp_all add: backoff_def)
qed

lemma step_close_retry:
  "retry_delays (trace (step h (Ws_close w) s)) =
     retry_delays (trace s) @
       (if readyState_of s w \<noteq> CLOSED \<and> reconnectAttempts s < 5
        then [1000 * (reconnectAttempts s + 1)] else [])"
  by (simp add: ws_onclose_eq)

lemma step_close_attempts:
  "reconnectAttempts (step h (Ws_close w) s) =
     (if readyState_of s w \<noteq> CLOSED \<and> reconnectAttempts s < 5
      then reconnectAttempts s + 1 else reconnectAttempts s)"
  by (simp add: ws_onclose_eq)

lemma run_retry_delays:
  "no_open evs \<Longrightarrow>
   retry_delays (trace (run h evs s)) =
     retry_delays (trace s) @ take (close_events h evs s) (drop (reconnectAttempts s) backoff)"
proof (induction evs arbitrary: s)
  case Nil
  then show ?case by simp
next
  case (Cons e evs)
  then have rest: "no_open evs" and e: "\<not> is_Ws_open e" by simp_all
  note IH = Cons.IH [OF rest, of "step h e s"]
  show ?case
  proof (cases "is_Ws_close e")
    case False
    then have ce: "close_events h (e # evs) s = close_events h evs (step h e s)"
      by (cases e) simp_all
    have a: "reconnectAttempts (step h e s) = reconnectAttempts s"
      using e False by (rule step_attempts)
    have r: "retry_delays (trace (step h e s)) = retry_delays (trace s)"
      using False by (rule step_retry)
    show ?thesis
      using IH by (simp only: run.simps ce a r)
  next
    case True
    then obtain w where w: "e = Ws_close w" by (cases e) simp_all
    show ?thesis
    proof (cases "readyState_of s w \<noteq> CLOSED \<and> reconnectAttempts s < 5")
      case True
      then show ?thesis
        using IH unfolding w
        by (simp only: run.simps close_events.simps step_close_retry step_close_attempts)
           (simp add: backoff_drop)
    next
      case False
      then consider "readyState_of s w = CLOSED" | "5 \<le> reconnectAttempts s" by force
      then show ?thesis
      proof cases
        case 1
        then show ?thesis using IH unfolding w by simp
      next
        case 2
        then have "drop (reconnectAttempts s) backoff = []" by (simp add: backoff_def)
        then show ?thesis
          using IH 2 unfolding w
          by (simp only: run.simps close_events.simps step_close_retry step_close_attempts)
             simp
      qed
    qed
  qed
qed

lemma run_task_shut:
  "shut s w \<Longrightarrow>
   shut (run_task h f s) w \<and> frames_sent w (trace (run_task h f s)) = frames_sent w (trace s)"
  by (cases f)
     (auto simp: run_task_def heartbeat_eq connect_eq shut_def readyState_of_def nth_append)

lemma step_shut:
  "shut s w \<Longrightarrow>
   shut (step h e s) w \<and> frames_sent w (trace (step h e s)) = frames_sent w (trace s)"
proof (cases e)
  case (Timeout i)
  assume "shut s w"
  then have "shut (s\<lparr>timers := remove_nth i (timers s)\<rparr>) w" by simp
  from run_task_shut [OF this] show ?thesis
    using \<open>shut s w\<close> unfolding Timeout by simp
next
  case (Ws_open w')
  assume "shut s w"
  then show ?thesis
    unfolding Ws_open
    by (auto simp: ws_onopen_eq shut_def readyState_of_def nth_list_update)
next
  case (Ws_close w')
  assume "shut s w"
  then show ?thesis
    unfolding Ws_close
    by (auto simp: ws_onclose_eq shut_def readyState_of_def nth_list_update)
next
  case Call_disconnect
  assume "shut s w"
  then show ?thesis
    unfolding Call_disconnect
    by (auto simp: disconnect_eq shut_def readyState_of_def nth_list_update split: option.splits)
next
  case (Call_send m)
  assume "shut s w"
  then show ?thesis
    unfolding Call_send
    by (auto simp: send_eq shut_def readyState_of_def split: option.splits)
next
  case (Ws_message w' raw)
  assume "shut s w"
  with steady_shut [OF ws_onmessage_steady this, of h raw] show ?thesis
    unfolding Ws_message by simp
qed (auto simp: connect_eq on_eq off_eq ws_onerror_def emit_def shut_def nth_append
       split: option.splits)

lemma run_shut:
  "shut s w \<Longrightarrow>
   shut (run h evs s) w \<and> frames_sent w (trace (run h evs s)) = frames_sent w (trace s)"
proof (induction evs arbitrary: s)
  case Nil
  then show ?case by simp
next
  case (Cons e evs)
  from step_shut [OF Cons.prems, of h e] Cons.IH [of "step h e s"]
  show ?case by simp
qed

lemma step_trace: "\<exists>es. trace (step h e s) = trace s @ es"
proof (cases e)
  case (Timeout i)
  show ?thesis
  proof (cases "snd (timers s ! i)")
    case (Heartbeat w)
    then show ?thesis unfolding Timeout by (simp add: run_task_def heartbeat_eq)
  next
    case Reconnect
    then show ?thesis unfolding Timeout by (simp add: run_task_def connect_eq)
  qed
next
  case (Ws_message w raw)
  have "ext s (ws_onmessage h raw s)"
    using ws_onmessage_steady [of s h raw] by (simp add: steady_def)
  then show ?thesis unfolding Ws_message by (auto simp: ext_def)
qed (simp_all add: connect_eq disconnect_eq on_eq off_eq send_eq
       ws_onerror_def ws_onopen_eq ws_onclose_eq emit_def split: option.splits)

lemma run_trace: "\<exists>es. trace (run h evs s) = trace s @ es"
proof (induction evs arbitrary: s)
  case Nil
  then show ?case by simp
next
  case (Cons e evs)
  obtain es1 where "trace (step h e s) = trace s @ es1" using step_trace by blast
  moreover obtain es2 where "trace (run h evs (step h e s)) = trace (step h e s) @ es2"
    using Cons.IH by blast
  ultimately show ?case by simp
qed

lemma trace_new_effects: "trace (run h evs s) = trace s @ new_effects s (run h evs s)"
  using run_trace [of h evs s] by (auto simp: new_effects_def)

subsection \<open>The registry, and one call of a listener\<close>





















lemma silent_refl [simp]: "silent s s"
  by (simp add: silent_def)

lemma silent_trans: "silent s s1 \<Longrightarrow> silent s1 s2 \<Longrightarrow> silent s s2"
  using ext_trans [of s s1 s2] by (simp add: silent_def)

lemma perform_silent: "silent s (perform h e s)"
  by (cases e)
     (auto simp: silent_def ext_def connect_eq disconnect_eq on_eq off_eq send_eq
        split: option.splits)

lemma perform_all_silent: "silent s (perform_all h es s)"
proof (induction es arbitrary: s)
  case Nil
  then show ?case by simp
next
  case (Cons e es)
  show ?case
    using silent_trans [OF perform_silent [of s h e] Cons.IH [of "perform h e s"]] by simp
qed

lemma perform_arrays: "\<not> is_registration e \<Longrightarrow> arrays (perform h e s) = arrays s"
  by (cases e) (simp_all add: connect_eq disconnect_eq send_eq split: option.splits)

lemma perform_all_arrays:
  "list_all (\<lambda>e. \<not> is_registration e) es \<Longrightarrow> arrays (perform_all h es s) = arrays s"
  by (induction es arbitrary: s) (simp_all add: perform_arrays)

lemma mutated_same [simp]: "mutated v v = v"
  by (cases v) (simp_all add: mutated_def)

lemma set_data_same:
  "get_prop m ''data'' = Some d \<Longrightarrow> truthy d \<Longrightarrow> set_data m d = m"
  by (cases m) (auto simp: set_data_def update_triv split: option.splits)

text \<open>One call, whatever the listener does.\<close>

lemma call_listener_effects:
  assumes "get_prop m ''data'' = Some d"
  shows "ext s (snd (call_listener h cb m s))"
    and "invocations (new_effects s (snd (call_listener h cb m s))) = [(cb, js_or d m)]"
    and "errors (new_effects s (snd (call_listener h cb m s))) =
           (if throws (body h cb (js_or d m) (emit (Invoke cb (js_or d m)) s))
            then [''Error in WebSocket listener:''] else [])"
proof -
  define s1 where "s1 = emit (Invoke cb (js_or d m)) s"
  define re where "re = body h cb (js_or d m) s1"
  define s2 where "s2 = perform_all h (calls re) s1"
  define s3 where "s3 = (if throws re
                         then emit (Console_error ''Error in WebSocket listener:'') s2 else s2)"
  have res: "snd (call_listener h cb m s) = s3"
    using assms by (simp add: call_listener_def Let_def s1_def s2_def s3_def re_def)
  have a: "ext s s1" "new_effects s s1 = [Invoke cb (js_or d m)]"
    by (simp_all add: s1_def)
  have b: "silent s1 s2" unfolding s2_def by (rule perform_all_silent)
  then have b': "ext s1 s2" by (simp add: silent_def)
  have c: "ext s2 s3"
    "new_effects s2 s3 = (if throws re then [Console_error ''Error in WebSocket listener:''] else [])"
    by (simp_all add: s3_def)
  note ab = ext_trans [OF a(1) b']
  note abc = ext_trans [OF ab(1) c(1)]
  show "ext s (snd (call_listener h cb m s))" using abc(1) res by simp
  show "invocations (new_effects s (snd (call_listener h cb m s))) = [(cb, js_or d m)]"
    using abc(2) ab(2) a(2) b c(2) res by (simp add: silent_def)
  show "errors (new_effects s (snd (call_listener h cb m s))) =
           (if throws (body h cb (js_or d m) (emit (Invoke cb (js_or d m)) s))
            then [''Error in WebSocket listener:''] else [])"
    using abc(2) ab(2) a(2) b c(2) res by (simp add: silent_def re_def s1_def)
qed

text \<open>One call of a listener that leaves the registry and its argument alone.\<close>

lemma call_listener_harmless:
  assumes "harmless h cb" and "get_prop m ''data'' = Some d"
  shows "fst (call_listener h cb m s) = m"
    and "arrays (snd (call_listener h cb m s)) = arrays s"
proof -
  define s1 where "s1 = emit (Invoke cb (js_or d m)) s"
  define re where "re = body h cb (js_or d m) s1"
  have quiet_calls: "list_all (\<lambda>e. \<not> is_registration e) (calls re)"
    and same: "mutated (js_or d m) (leaves re) = js_or d m"
    using assms(1) by (simp_all add: harmless_def re_def)
  have "arrays (perform_all h (calls re) s1) = arrays s1"
    using quiet_calls by (rule perform_all_arrays)
  then show "arrays (snd (call_listener h cb m s)) = arrays s"
    using assms(2) by (simp add: call_listener_def Let_def s1_def re_def)
  show "fst (call_listener h cb m s) = m"
  proof (cases "truthy d")
    case True
    then have "mutated d (leaves re) = d" using same by (simp add: js_or_def)
    then show ?thesis
      using assms(2) True set_data_same [OF assms(2) True]
      by (simp add: call_listener_def Let_def s1_def re_def js_or_def)
  next
    case False
    then have "mutated m (leaves re) = m" using same by (simp add: js_or_def)
    then show ?thesis
      using assms(2) False
      by (simp add: call_listener_def Let_def s1_def re_def js_or_def)
  qed
qed

subsection \<open>The dispatch loop\<close>

text \<open>The whole loop, when every listener in the array is harmless.\<close>

lemma forEach_from_harmless:
  assumes "get_prop m ''data'' = Some d"
  shows "list_all (harmless h) (arrays s r) \<Longrightarrow>
     arrays (snd (forEach_from h r k n m s)) = arrays s \<and>
     ext s (snd (forEach_from h r k n m s)) \<and>
     invocations (new_effects s (snd (forEach_from h r k n m s))) =
       map (\<lambda>cb. (cb, js_or d m)) (take n (drop k (arrays s r))) \<and>
     set (errors (new_effects s (snd (forEach_from h r k n m s)))) \<subseteq>
       {''Error in WebSocket listener:''} \<and>
     ((\<exists>cb\<in>set (take n (drop k (arrays s r))). always_throws h cb) \<longrightarrow>
        ''Error in WebSocket listener:'' \<in>
          set (errors (new_effects s (snd (forEach_from h r k n m s)))))"
proof (induction n arbitrary: k s)
  case 0
  then show ?case by simp
next
  case (Suc n)
  show ?case
  proof (cases "k < length (arrays s r)")
    case False
    then have "drop k (arrays s r) = []" and "drop (Suc k) (arrays s r) = []" by simp_all
    then show ?thesis
      using False Suc.IH [OF Suc.prems, of "Suc k"] by simp
  next
    case True
    define cb where "cb = arrays s r ! k"
    define s1 where "s1 = snd (call_listener h cb m s)"
    have cb: "harmless h cb"
      using Suc.prems True by (simp add: cb_def list_all_length)
    have m1: "fst (call_listener h cb m s) = m" and a1: "arrays s1 = arrays s"
      using call_listener_harmless [OF cb assms, of s] by (simp_all add: s1_def)
    have e1: "ext s s1"
      and i1: "invocations (new_effects s s1) = [(cb, js_or d m)]"
      and r1: "errors (new_effects s s1) =
                 (if throws (body h cb (js_or d m) (emit (Invoke cb (js_or d m)) s))
                  then [''Error in WebSocket listener:''] else [])"
      using call_listener_effects [OF assms, of s h cb] by (simp_all add: s1_def)
    have "call_listener h cb m s = (m, s1)"
      using m1 by (simp add: s1_def prod_eq_iff)
    then have step: "forEach_from h r k (Suc n) m s = forEach_from h r (Suc k) n m s1"
      using True by (simp add: cb_def)
    have "list_all (harmless h) (arrays s1 r)" using Suc.prems a1 by simp
    note IH = Suc.IH [OF this, of "Suc k"]
    define s2 where "s2 = snd (forEach_from h r (Suc k) n m s1)"
    have e2: "ext s1 s2" using IH by (simp add: s2_def)
    note e = ext_trans [OF e1 e2]
    have "drop k (arrays s r) = cb # drop (Suc k) (arrays s r)"
      using True Cons_nth_drop_Suc [of k "arrays s r"] by (simp add: cb_def)
    then have split:
      "take (Suc n) (drop k (arrays s r)) = cb # take n (drop (Suc k) (arrays s r))"
      by (simp only: take_Suc_Cons)
    have thrown: "always_throws h cb \<Longrightarrow> errors (new_effects s s1) = [''Error in WebSocket listener:'']"
      using r1 by (simp add: always_throws_def)
    show ?thesis
      unfolding step s2_def [symmetric]
      using IH e a1 i1 r1 thrown
      by (auto simp: s2_def [symmetric] split simp del: forEach_from.simps)
  qed
qed

lemma dispatch_harmless:
  assumes "JSON_parse h raw = Some m" and "get_prop m ''type'' = Some (JStr t)"
    and "get_prop m ''data'' = Some d" and "list_all (harmless h) (registered s t)"
  shows "invocations (new_effects s (ws_onmessage h raw s)) =
           map (\<lambda>cb. (cb, js_or d m)) (registered s t) \<and>
         set (errors (new_effects s (ws_onmessage h raw s))) \<subseteq>
           {''Error in WebSocket listener:''} \<and>
         ((\<exists>cb\<in>set (registered s t). always_throws h cb) \<longrightarrow>
            ''Error in WebSocket listener:'' \<in>
              set (errors (new_effects s (ws_onmessage h raw s))))"
proof (cases "listeners s t")
  case None
  then show ?thesis
    using assms(1,2)
    by (simp add: ws_onmessage_dispatch listeners_get_def registered_def)
next
  case (Some r)
  define s0 where "s0 = emit (Console_log ''Received WebSocket message:'') s"
  define s1 where "s1 = snd (forEach_from h r 0 (length (arrays s0 r)) m s0)"
  have res: "ws_onmessage h raw s = s1"
    using assms(1,2) Some
    by (simp add: ws_onmessage_dispatch listeners_get_def forEach_def s0_def s1_def)
  have reg: "registered s t = arrays s0 r" using Some by (simp add: registered_def s0_def)
  have e0: "ext s s0" "new_effects s s0 = [Console_log ''Received WebSocket message:'']"
    by (simp_all add: s0_def)
  have "list_all (harmless h) (arrays s0 r)" using assms(4) reg by simp
  note loop = forEach_from_harmless [OF assms(3) this, of 0 "length (arrays s0 r)"]
  then have e1: "ext s0 s1" by (simp add: s1_def)
  note e = ext_trans [OF e0(1) e1]
  show ?thesis
    unfolding res reg using loop e(2) e0(2) by (simp add: s1_def)
qed

lemma forEach_from_unchanging:
  assumes "get_prop m ''data'' = Some d"
    and "\<And>cb arg st. mutated arg (leaves (body h cb arg st)) = arg"
  shows "ext s (snd (forEach_from h r k n m s)) \<and>
         list_all (\<lambda>c. snd c = js_or d m)
           (invocations (new_effects s (snd (forEach_from h r k n m s))))"
proof (induction n arbitrary: k s)
  case 0
  then show ?case by simp
next
  case (Suc n)
  show ?case
  proof (cases "k < length (arrays s r)")
    case False
    then show ?thesis using Suc.IH [of s "Suc k"] by simp
  next
    case True
    define cb where "cb = arrays s r ! k"
    define s1 where "s1 = snd (call_listener h cb m s)"
    have same: "mutated (js_or d m) (leaves (body h cb (js_or d m) st)) = js_or d m" for st
      by (rule assms(2))
    have "fst (call_listener h cb m s) = m"
    proof (cases "truthy d")
      case True
      then have "mutated d (leaves (body h cb d st)) = d" for st
        using same [of st] by (simp add: js_or_def)
      then show ?thesis
        using assms(1) True set_data_same [OF assms(1) True]
        by (simp add: call_listener_def Let_def js_or_def)
    next
      case False
      then have "mutated m (leaves (body h cb m st)) = m" for st
        using same [of st] by (simp add: js_or_def)
      then show ?thesis
        using assms(1) False by (simp add: call_listener_def Let_def js_or_def)
    qed
    then have "call_listener h cb m s = (m, s1)" by (simp add: s1_def prod_eq_iff)
    then have step: "forEach_from h r k (Suc n) m s = forEach_from h r (Suc k) n m s1"
      using True by (simp add: cb_def)
    have e1: "ext s s1" and i1: "invocations (new_effects s s1) = [(cb, js_or d m)]"
      using call_listener_effects [OF assms(1), of s h cb] by (simp_all add: s1_def)
    define s2 where "s2 = snd (forEach_from h r (Suc k) n m s1)"
    note IH = Suc.IH [of s1 "Suc k"]
    then have e2: "ext s1 s2" by (simp add: s2_def)
    note e = ext_trans [OF e1 e2]
    show ?thesis
      unfolding step s2_def [symmetric]
      using IH e i1 by (simp add: s2_def [symmetric] del: forEach_from.simps)
  qed
qed

lemma dispatch_unchanging:
  assumes "JSON_parse h raw = Some m" and "get_prop m ''type'' = Some ty"
    and "get_prop m ''data'' = Some d"
    and "\<And>cb arg st. mutated arg (leaves (body h cb arg st)) = arg"
  shows "list_all (\<lambda>c. snd c = js_or d m) (invocations (new_effects s (ws_onmessage h raw s)))"
proof (cases "listeners_get s ty")
  case None
  then show ?thesis using assms(1,2) by (simp add: ws_onmessage_dispatch)
next
  case (Some r)
  define s0 where "s0 = emit (Console_log ''Received WebSocket message:'') s"
  define s1 where "s1 = snd (forEach_from h r 0 (length (arrays s0 r)) m s0)"
  have res: "ws_onmessage h raw s = s1"
    using assms(1,2) Some by (simp add: ws_onmessage_dispatch forEach_def s0_def s1_def)
  have e0: "ext s s0" "new_effects s s0 = [Console_log ''Received WebSocket message:'']"
    by (simp_all add: s0_def)
  note loop = forEach_from_unchanging [OF assms(3,4), of s0 r 0 "length (arrays s0 r)"]
  then have e1: "ext s0 s1" by (simp add: s1_def)
  note e = ext_trans [OF e0(1) e1]
  show ?thesis unfolding res using loop e(2) e0(2) by (simp add: s1_def)
qed

lemma harmless_sample:
  "cb \<noteq> 2 \<Longrightarrow> cb \<noteq> 4 \<Longrightarrow> harmless sample_host cb"
  by (simp add: harmless_def sample_host_def)

lemmas eval_defs =
  loaded_def fresh_def connect_eq disconnect_eq ws_onopen_eq ws_onclose_eq heartbeat_eq
  run_task_def remove_nth_def readyState_of_def new_effects_def wsUrl_def sample_host_def
  editing_host_def isConnected_def

lemmas eval_dispatch =
  ws_onmessage_def handleMessage_def forEach_def call_listener_def listeners_get_def
  registered_def emit_def Let_def js_or_def mutated_def set_data_def on_eq off_eq splice1_def

lemma map_of_size:
  "map_of kvs k = Some (d::jsval) \<Longrightarrow> size d < Suc (size_list (size_prod (\<lambda>_. 0) size) kvs)"
  by (induction kvs) (auto split: if_splits)

lemma field_neq_object: "map_of kvs k = Some d \<Longrightarrow> d \<noteq> JObj kvs"
proof
  assume m: "map_of kvs k = Some d" and "d = JObj kvs"
  then have "size d = Suc (size_list (size_prod (\<lambda>_. 0) size) kvs)" by simp
  with map_of_size [OF m] show False by simp
qed

section \<open>The claims\<close>

text \<open>
  Claim C1 says that \<^verbatim>\<open>connect\<close> does nothing when the connection is already open. The
  guard of \<^verbatim>\<open>connect\<close> reads \<^verbatim>\<open>this.socket\<close>, which nothing ever assigns, while the
  transport is kept in \<^verbatim>\<open>(this as any).ws\<close>. After the page has loaded and its socket 0
  has opened, \<^verbatim>\<open>isConnected\<close> holds, and a call of \<^verbatim>\<open>connect\<close> still logs, creates
  the socket 1 and makes it the manager's transport.
\<close>

theorem connect_while_connected_creates_transport:
  "isConnected (run sample_host [Ws_open 0] (loaded sample_host)) \<and>
   new_effects (run sample_host [Ws_open 0] (loaded sample_host))
     (run sample_host [Ws_open 0, Call_connect] (loaded sample_host)) =
     [Console_log ''Connecting to WebSocket...'', New_WebSocket 1 ''wss://localhost:8000/ws''] \<and>
   ws (run sample_host [Ws_open 0] (loaded sample_host)) = Some 0 \<and>
   ws (run sample_host [Ws_open 0, Call_connect] (loaded sample_host)) = Some 1 \<and>
   readyStates (run sample_host [Ws_open 0, Call_connect] (loaded sample_host)) =
     [OPEN, CONNECTING]"
  by (simp add: eval_defs)

text \<open>
  Claim C2, as stated, fails: the page loads, its socket opens, \<^verbatim>\<open>disconnect\<close> is called,
  and the close event of the socket follows. The handler of that event schedules a
  reconnection after 1000 ms, and when the timer fires a new socket is created.
\<close>

theorem disconnect_then_close_schedules_reconnect:
  "retry_delays
     (new_effects (run sample_host [Ws_open 0, Call_disconnect] (loaded sample_host))
        (run sample_host [Ws_open 0, Call_disconnect, Ws_close 0] (loaded sample_host))) =
     [1000] \<and>
   readyStates
     (run sample_host [Ws_open 0, Call_disconnect, Ws_close 0, Elapse 1000, Timeout 1]
        (loaded sample_host)) = [CLOSED, CONNECTING]"
  by (simp add: eval_defs)

text \<open>
  Claim C2, amended: \<^verbatim>\<open>disconnect\<close> empties the registry, calls \<^verbatim>\<open>close\<close> on the
  transport if there is one (which is then neither open nor connecting) and does nothing
  else; in particular it starts no timer itself. The close event of that transport is
  handled like every other close: while fewer than 5 attempts have been counted it
  schedules a reconnection, due 1000 ms times the new count later.
\<close>

theorem disconnect_closes_and_clears:
  "listeners (disconnect s) = Map.empty \<and>
   timers (disconnect s) = timers s \<and>
   new_effects s (disconnect s) = (case ws s of Some w \<Rightarrow> [Ws_close_call w] | None \<Rightarrow> []) \<and>
   (ws s = Some w \<longrightarrow>
      readyState_of (disconnect s) w \<noteq> OPEN \<and> readyState_of (disconnect s) w \<noteq> CONNECTING) \<and>
   (ws s = Some w \<and> readyState_of s w \<noteq> CLOSED \<and> reconnectAttempts s < 5 \<longrightarrow>
      timers (step h (Ws_close w) (disconnect s)) =
        timers s @ [(now s + 1000 * (reconnectAttempts s + 1), Reconnect)])"
  by (auto simp: disconnect_eq ws_onclose_eq readyState_of_def new_effects_def
      split: option.splits)

text \<open>
  Claim C2, amended, at a concrete state: the loaded page after its socket 0 opened.
\<close>

theorem disconnect_closes_and_clears_witness:
  "ws (run sample_host [Ws_open 0] (loaded sample_host)) = Some 0 \<and>
   readyState_of (run sample_host [Ws_open 0] (loaded sample_host)) 0 \<noteq> CLOSED \<and>
   reconnectAttempts (run sample_host [Ws_open 0] (loaded sample_host)) < 5 \<and>
   readyState_of (disconnect (run sample_host [Ws_open 0] (loaded sample_host))) 0 = CLOSING \<and>
   timers (run sample_host [Ws_open 0, Call_disconnect, Ws_close 0] (loaded sample_host)) =
     [(30000, Heartbeat 0), (1000, Reconnect)]"
  using disconnect_closes_and_clears
    [of "run sample_host [Ws_open 0] (loaded sample_host)" 0 sample_host]
  by (simp add: eval_defs)

text \<open>
  Claim C3: start from any state whose attempt counter is 0 and let anything happen
  except that a socket opens. Then the delays of the reconnections scheduled during the
  run are the first k of 1000, 2000, 3000, 4000, 5000 ms, where k is the number of close
  events of the run: the k-th close schedules a retry after 1000 k ms for k up to 5, and
  from the sixth close on none is scheduled.
\<close>

theorem backoff_sequence:
  assumes "reconnectAttempts s = 0" and "no_open evs"
  shows "retry_delays (new_effects s (run h evs s)) =
           take (close_events h evs s) [1000, 2000, 3000, 4000, 5000]"
proof -
  have "retry_delays (trace (run h evs s)) =
          retry_delays (trace s) @ retry_delays (new_effects s (run h evs s))"
    using trace_new_effects [of h evs s] retry_delays_append by metis
  moreover have "retry_delays (trace (run h evs s)) =
          retry_delays (trace s) @ take (close_events h evs s) (drop 0 backoff)"
    using run_retry_delays [OF assms(2), of h s] assms(1) by simp
  ultimately show ?thesis by (simp add: backoff_def)
qed

text \<open>
  Claim C3 on the loaded page: every socket closes without having opened, each retry
  timer fires when it is due, and the sixth close schedules nothing.
\<close>

theorem backoff_sequence_witness:
  "reconnectAttempts (loaded sample_host) = 0 \<and>
   no_open [Ws_close 0, Elapse 1000, Timeout 0, Ws_close 1, Elapse 2000, Timeout 0,
            Ws_close 2, Elapse 3000, Timeout 0, Ws_close 3, Elapse 4000, Timeout 0,
            Ws_close 4, Elapse 5000, Timeout 0, Ws_close 5] \<and>
   retry_delays (new_effects (loaded sample_host)
     (run sample_host
        [Ws_close 0, Elapse 1000, Timeout 0, Ws_close 1, Elapse 2000, Timeout 0,
         Ws_close 2, Elapse 3000, Timeout 0, Ws_close 3, Elapse 4000, Timeout 0,
         Ws_close 4, Elapse 5000, Timeout 0, Ws_close 5] (loaded sample_host))) =
     [1000, 2000, 3000, 4000, 5000]"
  using backoff_sequence [of "loaded sample_host"
        "[Ws_close 0, Elapse 1000, Timeout 0, Ws_close 1, Elapse 2000, Timeout 0,
          Ws_close 2, Elapse 3000, Timeout 0, Ws_close 3, Elapse 4000, Timeout 0,
          Ws_close 4, Elapse 5000, Timeout 0, Ws_close 5]" sample_host]
  by (simp add: eval_defs)

text \<open>
  Claim C4: whatever the attempt counter is, the open event of a connecting socket sets
  it to 0; and if afterwards no socket opens or closes, the next close event schedules
  exactly one reconnection, after 1000 ms.
\<close>

theorem reset_on_success:
  assumes "readyState_of s w = CONNECTING"
    and "quiet evs"
    and "readyState_of (run h evs (step h (Ws_open w) s)) w' \<noteq> CLOSED"
  shows "reconnectAttempts (step h (Ws_open w) s) = 0 \<and>
         new_effects (run h evs (step h (Ws_open w) s))
           (step h (Ws_close w') (run h evs (step h (Ws_open w) s))) =
           [Console_log ''WebSocket disconnected'', Console_log ''Attempting to reconnect...'',
            Set_timeout Reconnect 1000] \<and>
         timers (step h (Ws_close w') (run h evs (step h (Ws_open w) s))) =
           timers (run h evs (step h (Ws_open w) s)) @
             [(now (run h evs (step h (Ws_open w) s)) + 1000, Reconnect)]"
proof -
  have zero: "reconnectAttempts (step h (Ws_open w) s) = 0"
    using assms(1) by (simp add: ws_onopen_eq)
  have "reconnectAttempts (run h evs (step h (Ws_open w) s)) = 0"
    using run_attempts [OF assms(2)] zero by simp
  then show ?thesis
    using assms(3) zero by (simp add: ws_onclose_eq)
qed

text \<open>
  Claim C4 at attempt count 3: three sockets closed without opening, the fourth opens
  and closes later; the delays scheduled are 1000, 2000, 3000 and then 1000 again.
\<close>

theorem reset_on_success_witness:
  "reconnectAttempts (run sample_host
      [Ws_close 0, Elapse 1000, Timeout 0, Ws_close 1, Elapse 2000, Timeout 0,
       Ws_close 2, Elapse 3000, Timeout 0] (loaded sample_host)) = 3 \<and>
   readyState_of (run sample_host
      [Ws_close 0, Elapse 1000, Timeout 0, Ws_close 1, Elapse 2000, Timeout 0,
       Ws_close 2, Elapse 3000, Timeout 0] (loaded sample_host)) 3 = CONNECTING \<and>
   quiet [Elapse 7, Call_send JNull] \<and>
   readyState_of (run sample_host
      [Ws_close 0, Elapse 1000, Timeout 0, Ws_close 1, Elapse 2000, Timeout 0,
       Ws_close 2, Elapse 3000, Timeout 0, Ws_open 3, Elapse 7, Call_send JNull]
      (loaded sample_host)) 3 = OPEN \<and>
   retry_delays (trace (run sample_host
      [Ws_close 0, Elapse 1000, Timeout 0, Ws_close 1, Elapse 2000, Timeout 0,
       Ws_close 2, Elapse 3000, Timeout 0, Ws_open 3, Elapse 7, Call_send JNull, Ws_close 3]
      (loaded sample_host))) = [1000, 2000, 3000, 1000]"
  using reset_on_success [of "run sample_host
      [Ws_close 0, Elapse 1000, Timeout 0, Ws_close 1, Elapse 2000, Timeout 0,
       Ws_close 2, Elapse 3000, Timeout 0] (loaded sample_host)" 3
      "[Elapse 7, Call_send JNull]" sample_host 3]
  by (simp add: eval_defs send_eq)

text \<open>
  Claim C5, as stated, fails: the frame \<^verbatim>\<open>{"type":"x","data":0}\<close> has a data field,
  and the listener of topic x is called with the whole envelope, not with 0.
\<close>

theorem falsy_data_passes_envelope:
  "get_prop (JObj [(''type'', JStr ''x''), (''data'', JNum 0)]) ''data'' = Some (JNum 0) \<and>
   JSON_parse sample_host ''{\"type\":\"x\",\"data\":0}'' =
     Some (JObj [(''type'', JStr ''x''), (''data'', JNum 0)]) \<and>
   invocations (new_effects (on ''x'' 1 (loaded sample_host))
     (ws_onmessage sample_host ''{\"type\":\"x\",\"data\":0}'' (on ''x'' 1 (loaded sample_host)))) =
     [(1, JObj [(''type'', JStr ''x''), (''data'', JNum 0)])]"
  by (simp add: eval_defs eval_dispatch)

text \<open>
  Claim C5, amended. A call of a listener passes the data field of the envelope, as the
  envelope is at that moment, when the field is present and truthy, and the whole
  envelope otherwise; so the envelope is passed exactly when the data field is absent or
  falsy (null, false, 0 or the empty string). When no callback changes the object it is
  handed, every call made while a decoded envelope is dispatched passes this payload of
  the decoded envelope, whatever the callbacks do to the registry. When moreover the
  listeners of the topic register and unregister nothing while they run, each of them
  receives it.
\<close>

theorem payload_is_data_unless_falsy:
  "invocations (new_effects s (snd (call_listener h cb (JObj props) s))) =
     [(cb, case map_of props ''data'' of
             Some d \<Rightarrow> if truthy d then d else JObj props
           | None \<Rightarrow> JObj props)] \<and>
   (JSON_parse h raw = Some (JObj props) \<and> map_of props ''type'' = Some (JStr t) \<and>
    keeps_message h \<longrightarrow>
      list_all (\<lambda>c. snd c = (case map_of props ''data'' of
                               Some d \<Rightarrow> if truthy d then d else JObj props
                             | None \<Rightarrow> JObj props))
        (invocations (new_effects s (ws_onmessage h raw s)))) \<and>
   (JSON_parse h raw = Some (JObj props) \<and> map_of props ''type'' = Some (JStr t) \<and>
    list_all (harmless h) (registered s t) \<longrightarrow>
      invocations (new_effects s (ws_onmessage h raw s)) =
        map (\<lambda>cb. (cb, case map_of props ''data'' of
                          Some d \<Rightarrow> if truthy d then d else JObj props
                        | None \<Rightarrow> JObj props))
            (registered s t)) \<and>
   ((case map_of props ''data'' of
       Some d \<Rightarrow> if truthy d then d else JObj props
     | None \<Rightarrow> JObj props) = JObj props) =
   (case map_of props ''data'' of Some d \<Rightarrow> \<not> truthy d | None \<Rightarrow> True)"
proof -
  define d where "d = (case map_of props ''data'' of Some v \<Rightarrow> v | None \<Rightarrow> JUndefined)"
  define P where "P = (case map_of props ''data'' of
      Some d \<Rightarrow> if truthy d then d else JObj props | None \<Rightarrow> JObj props)"
  have data: "get_prop (JObj props) ''data'' = Some d" by (simp add: d_def)
  have P: "js_or d (JObj props) = P"
    by (simp add: js_or_def d_def P_def split: option.splits)
  have one: "invocations (new_effects s (snd (call_listener h cb (JObj props) s))) = [(cb, P)]"
    using call_listener_effects(2) [OF data, of s h cb] P by simp
  have two: "list_all (\<lambda>c. snd c = P) (invocations (new_effects s (ws_onmessage h raw s)))"
    if "JSON_parse h raw = Some (JObj props) \<and> map_of props ''type'' = Some (JStr t) \<and>
        keeps_message h"
  proof -
    from that have ty: "get_prop (JObj props) ''type'' = Some (JStr t)" by simp
    from that have keep: "\<And>cb arg st. mutated arg (leaves (body h cb arg st)) = arg"
      by (simp add: keeps_message_def)
    from that have parse: "JSON_parse h raw = Some (JObj props)" by simp
    show ?thesis using dispatch_unchanging [OF parse ty data keep, of s] P by simp
  qed
  have three: "invocations (new_effects s (ws_onmessage h raw s)) =
      map (\<lambda>cb. (cb, P)) (registered s t)"
    if "JSON_parse h raw = Some (JObj props) \<and> map_of props ''type'' = Some (JStr t) \<and>
        list_all (harmless h) (registered s t)"
  proof -
    from that have ty: "get_prop (JObj props) ''type'' = Some (JStr t)" by simp
    from that have parse: "JSON_parse h raw = Some (JObj props)"
      and tame: "list_all (harmless h) (registered s t)" by simp_all
    show ?thesis using dispatch_harmless [OF parse ty data tame] P by simp
  qed
  have four: "(P = JObj props) =
      (case map_of props ''data'' of Some d \<Rightarrow> \<not> truthy d | None \<Rightarrow> True)"
    by (auto simp: P_def split: option.splits dest: field_neq_object)
  show ?thesis
    using one two three four unfolding P_def by blast
qed

text \<open>
  Claim C5, amended, on the frame of a task update: no callback of the sample host
  changes its argument, listener 1 is harmless, and it receives the task record, once.
\<close>

theorem payload_is_data_unless_falsy_witness:
  "JSON_parse sample_host
     ''{\"type\":\"task_status_update\",\"data\":{\"id\":\"t1\",\"status\":\"running\"}}'' =
     Some (JObj [(''type'', JStr ''task_status_update''),
                 (''data'', JObj [(''id'', JStr ''t1''), (''status'', JStr ''running'')])]) \<and>
   map_of [(''type'', JStr ''task_status_update''),
           (''data'', JObj [(''id'', JStr ''t1''), (''status'', JStr ''running'')])] ''type'' =
     Some (JStr ''task_status_update'') \<and>
   keeps_message sample_host \<and>
   list_all (harmless sample_host)
     (registered (run sample_host [Ws_open 0, Call_on ''task_status_update'' 1]
        (loaded sample_host)) ''task_status_update'') \<and>
   invocations (new_effects
     (run sample_host [Ws_open 0, Call_on ''task_status_update'' 1] (loaded sample_host))
     (run sample_host [Ws_open 0, Call_on ''task_status_update'' 1, Ws_message 0
        ''{\"type\":\"task_status_update\",\"data\":{\"id\":\"t1\",\"status\":\"running\"}}'']
       (loaded sample_host))) =
     [(1, JObj [(''id'', JStr ''t1''), (''status'', JStr ''running'')])]"
proof -
  have reg: "registered (run sample_host [Ws_open 0, Call_on ''task_status_update'' 1]
      (loaded sample_host)) ''task_status_update'' = [1]"
    by (simp add: eval_defs on_eq registered_def)
  have keep: "keeps_message sample_host"
    by (simp add: keeps_message_def sample_host_def)
  have tame: "harmless sample_host 1" by (simp add: harmless_sample)
  have "readyState_of (run sample_host [Ws_open 0, Call_on ''task_status_update'' 1]
      (loaded sample_host)) 0 = OPEN"
    by (simp add: eval_defs on_eq)
  then have delivered:
    "run sample_host [Ws_open 0, Call_on ''task_status_update'' 1, Ws_message 0
        ''{\"type\":\"task_status_update\",\"data\":{\"id\":\"t1\",\"status\":\"running\"}}'']
       (loaded sample_host) =
     ws_onmessage sample_host
       ''{\"type\":\"task_status_update\",\"data\":{\"id\":\"t1\",\"status\":\"running\"}}''
       (run sample_host [Ws_open 0, Call_on ''task_status_update'' 1] (loaded sample_host))"
    by simp
  have parse: "JSON_parse sample_host
     ''{\"type\":\"task_status_update\",\"data\":{\"id\":\"t1\",\"status\":\"running\"}}'' =
     Some (JObj [(''type'', JStr ''task_status_update''),
                 (''data'', JObj [(''id'', JStr ''t1''), (''status'', JStr ''running'')])])"
    by (simp add: sample_host_def)
  show ?thesis
    using payload_is_data_unless_falsy [of
      "run sample_host [Ws_open 0, Call_on ''task_status_update'' 1] (loaded sample_host)"
      sample_host 1
      "[(''type'', JStr ''task_status_update''),
        (''data'', JObj [(''id'', JStr ''t1''), (''status'', JStr ''running'')])]"
      "''{\"type\":\"task_status_update\",\"data\":{\"id\":\"t1\",\"status\":\"running\"}}''"
      "''task_status_update''"]
      reg keep tame parse
    unfolding delivered by simp
qed







text \<open>
  Claim C8: when \<^verbatim>\<open>JSON.parse\<close> rejects the text of a message, the handler writes one
  line to the error console and changes nothing else: no listener is called, the sockets,
  the transport and the answer of \<^verbatim>\<open>isConnected\<close> stay as they were.
\<close>

theorem decode_resilience:
  assumes "JSON_parse h raw = None"
  shows "ws_onmessage h raw s =
           s\<lparr>trace := trace s @ [Console_error ''Failed to parse WebSocket message:'']\<rparr> \<and>
         step h (Ws_message w raw) s =
           (if readyState_of s w = OPEN
            then s\<lparr>trace := trace s @ [Console_error ''Failed to parse WebSocket message:'']\<rparr>
            else s) \<and>
         invocations (new_effects s (step h (Ws_message w raw) s)) = [] \<and>
         readyStates (step h (Ws_message w raw) s) = readyStates s \<and>
         ws (step h (Ws_message w raw) s) = ws s \<and>
         isConnected (step h (Ws_message w raw) s) = isConnected s"
proof -
  have eq: "ws_onmessage h raw s =
      s\<lparr>trace := trace s @ [Console_error ''Failed to parse WebSocket message:'']\<rparr>"
    using assms by (simp add: ws_onmessage_def emit_def)
  show ?thesis
    unfolding step.simps eq
    by (simp add: isConnected_def new_effects_def split: option.splits)
qed

text \<open>
  Claim C8 on an open connection with a listener registered.
\<close>

theorem decode_resilience_witness:
  "JSON_parse sample_host ''not json'' = None \<and>
   new_effects (run sample_host [Ws_open 0, Call_on ''x'' 1] (loaded sample_host))
     (run sample_host [Ws_open 0, Call_on ''x'' 1, Ws_message 0 ''not json'']
        (loaded sample_host)) = [Console_error ''Failed to parse WebSocket message:''] \<and>
   isConnected (run sample_host [Ws_open 0, Call_on ''x'' 1, Ws_message 0 ''not json'']
        (loaded sample_host))"
  using decode_resilience [of sample_host "''not json''"
      "run sample_host [Ws_open 0, Call_on ''x'' 1] (loaded sample_host)" 0]
  by (simp add: eval_defs on_eq)

text \<open>
  Claim C9: the open event of a connecting socket sends exactly one frame, the probe
  \<^verbatim>\<open>{"type":"ping"}\<close>, and starts a timer due 30000 ms later. When a heartbeat timer
  of a socket fires, it sends one probe and starts the next timer, due 30000 ms later,
  if the socket is open at that time, and does nothing otherwise. Once \<^verbatim>\<open>close\<close> was
  called on a socket or its close event has fired, nothing is ever sent on it again.
\<close>

theorem heartbeat_cadence:
  "new_effects s (step h (Ws_open w) s) =
     (if readyState_of s w = CONNECTING
      then [Console_log ''WebSocket connected'', Ws_send w ping, Set_timeout (Heartbeat w) 30000]
      else []) \<and>
   frames_sent w (new_effects s (step h (Ws_open w) s)) =
     (if readyState_of s w = CONNECTING then [JObj [(''type'', JStr ''ping'')]] else []) \<and>
   (readyState_of s w = CONNECTING \<longrightarrow>
      timers (step h (Ws_open w) s) = timers s @ [(now s + 30000, Heartbeat w)]) \<and>
   (i < length (timers s) \<and> timers s ! i = (due, Heartbeat w) \<longrightarrow>
      new_effects s (step h (Timeout i) s) =
        (if due \<le> now s \<and> readyState_of s w = OPEN
         then [Ws_send w ping, Set_timeout (Heartbeat w) 30000] else []) \<and>
      timers (step h (Timeout i) s) =
        (if due \<le> now s
         then remove_nth i (timers s) @
                (if readyState_of s w = OPEN then [(now s + 30000, Heartbeat w)] else [])
         else timers s)) \<and>
   (w < length (readyStates s) \<and> (readyStates s ! w = CLOSING \<or> readyStates s ! w = CLOSED) \<longrightarrow>
      frames_sent w (new_effects s (run h evs s)) = [])"
proof -
  have closed: "frames_sent w (new_effects s (run h evs s)) = []"
    if "w < length (readyStates s) \<and> (readyStates s ! w = CLOSING \<or> readyStates s ! w = CLOSED)"
  proof -
    from that have "shut s w" by (simp add: shut_def)
    then have "frames_sent w (trace (run h evs s)) = frames_sent w (trace s)"
      using run_shut by blast
    moreover have "frames_sent w (trace (run h evs s)) =
        frames_sent w (trace s) @ frames_sent w (new_effects s (run h evs s))"
      using trace_new_effects [of h evs s] frames_sent_append by metis
    ultimately show ?thesis by simp
  qed
  have opened: "new_effects s (step h (Ws_open w) s) =
     (if readyState_of s w = CONNECTING
      then [Console_log ''WebSocket connected'', Ws_send w ping, Set_timeout (Heartbeat w) 30000]
      else [])"
    by (auto simp: ws_onopen_eq readyState_of_def)
  have fire: "new_effects s (step h (Timeout i) s) =
        (if due \<le> now s \<and> readyState_of s w = OPEN
         then [Ws_send w ping, Set_timeout (Heartbeat w) 30000] else []) \<and>
      timers (step h (Timeout i) s) =
        (if due \<le> now s
         then remove_nth i (timers s) @
                (if readyState_of s w = OPEN then [(now s + 30000, Heartbeat w)] else [])
         else timers s)"
    if "i < length (timers s) \<and> timers s ! i = (due, Heartbeat w)"
    using that by (simp add: run_task_def heartbeat_eq)
  show ?thesis
    using closed fire opened
    by (auto simp: ws_onopen_eq readyState_of_def ping_def)
qed

text \<open>
  Claim C9 on the loaded page: one probe at the open event, a second one 30 s later,
  none after the close event although the timer still fires and \<^verbatim>\<open>send\<close> is called.
\<close>

theorem heartbeat_cadence_witness:
  "readyState_of (loaded sample_host) 0 = CONNECTING \<and>
   new_effects (loaded sample_host) (run sample_host [Ws_open 0] (loaded sample_host)) =
     [Console_log ''WebSocket connected'', Ws_send 0 ping, Set_timeout (Heartbeat 0) 30000] \<and>
   timers (run sample_host [Ws_open 0] (loaded sample_host)) = [(30000, Heartbeat 0)] \<and>
   timers (run sample_host [Ws_open 0, Elapse 30000] (loaded sample_host)) ! 0 =
     (30000, Heartbeat 0) \<and>
   new_effects (run sample_host [Ws_open 0, Elapse 30000] (loaded sample_host))
     (run sample_host [Ws_open 0, Elapse 30000, Timeout 0] (loaded sample_host)) =
     [Ws_send 0 ping, Set_timeout (Heartbeat 0) 30000] \<and>
   readyStates (run sample_host [Ws_open 0, Elapse 30000, Timeout 0, Ws_close 0]
     (loaded sample_host)) ! 0 = CLOSED \<and>
   frames_sent 0 (new_effects
     (run sample_host [Ws_open 0, Elapse 30000, Timeout 0, Ws_close 0] (loaded sample_host))
     (run sample_host [Elapse 30000, Timeout 0, Timeout 0, Call_send ping]
        (run sample_host [Ws_open 0, Elapse 30000, Timeout 0, Ws_close 0]
           (loaded sample_host)))) = [] \<and>
   frames_sent 0 (trace
     (run sample_host [Ws_open 0, Elapse 30000, Timeout 0, Ws_close 0, Elapse 30000,
        Timeout 0, Timeout 0, Call_send ping] (loaded sample_host))) = [ping, ping]"
  using
    heartbeat_cadence [of "loaded sample_host" sample_host 0 0 0 "[]"]
    heartbeat_cadence [of "run sample_host [Ws_open 0, Elapse 30000] (loaded sample_host)"
      sample_host 0 0 30000 "[]"]
    heartbeat_cadence [of "run sample_host [Ws_open 0, Elapse 30000, Timeout 0, Ws_close 0]
      (loaded sample_host)" sample_host 0 0 60000
      "[Elapse 30000, Timeout 0, Timeout 0, Call_send ping]"]
  by (simp add: eval_defs send_eq)




end
